theory Spec2Isabelle
  imports Main "HOL-Library.Word"
begin

text \<open>
  A model of \<open>packages/tailwindcss-language-service/src/util/find.ts\<close>: the two
  tokenizers of class lists, \<open>getClassNamesInClassList\<close> and
  \<open>getClassNamesAndVariantsInClassList\<close>, the conversion \<open>indexToPosition\<close> of offsets
  to positions, and \<open>findHelperFunctionsInRange\<close> with \<open>getFirstCommaIndex\<close>.
  JavaScript numbers that hold offsets, lines and columns are integers.
\<close>

section \<open>JavaScript strings\<close>

text \<open>
  A JavaScript string is a sequence of UTF-16 code units; \<open>length\<close>, indexing,
  \<open>substring\<close> and the regular expression class \<open>\s\<close> all work on code units.
\<close>

type_synonym code_unit = "16 word"
type_synonym js_string = "code_unit list"

text \<open>An ASCII literal as a JavaScript string.\<close>

definition js :: "string \<Rightarrow> js_string" where
  "js s = map of_char s"

definition newline :: code_unit where "newline = 0x0A"
definition colon :: code_unit where "colon = 0x3A"
definition lparen :: code_unit where "lparen = 0x28"
definition rparen :: code_unit where "rparen = 0x29"
definition comma :: code_unit where "comma = 0x2C"
definition dquote :: code_unit where "dquote = 0x22"
definition squote :: code_unit where "squote = 0x27"
definition slash :: code_unit where "slash = 0x2F"
definition lbracket :: code_unit where "lbracket = 0x5B"
definition rbracket :: code_unit where "rbracket = 0x5D"

text \<open>
  \<open>String.prototype.substring(a, b)\<close>: both arguments are clamped to
  \<open>[0, length]\<close> and swapped when \<open>a > b\<close>.
\<close>

definition substring :: "js_string \<Rightarrow> int \<Rightarrow> int \<Rightarrow> js_string" where
  "substring s a b =
     (let len = int (length s);
          a' = min (max a 0) len;
          b' = min (max b 0) len;
          lo = min a' b';
          hi = max a' b'
      in take (nat (hi - lo)) (drop (nat lo) s))"

text \<open>
  The string without its longest suffix of characters that satisfy \<open>P\<close>:
  \<open>trimEnd\<close> for whitespace, and a \<open>replace\<close> of a class repeated up to \<open>$\<close>.
\<close>

definition dropTrailing :: "(code_unit \<Rightarrow> bool) \<Rightarrow> js_string \<Rightarrow> js_string" where
  "dropTrailing P s = rev (dropWhile P (rev s))"

text \<open>
  The class \<open>\s\<close> of a JavaScript regular expression (WhiteSpace and LineTerminator
  of ECMAScript): TAB, LF, VT, FF, CR, SPACE, U+00A0, U+1680, U+2000 to U+200A, U+2028,
  U+2029, U+202F, U+205F, U+3000 and U+FEFF.
\<close>

definition isWhiteSpace :: "code_unit \<Rightarrow> bool" where
  "isWhiteSpace c \<longleftrightarrow>
     c \<in> set [0x09, 0x0A, 0x0B, 0x0C, 0x0D, 0x20, 0xA0, 0x1680]
     \<or> (0x2000 \<le> c \<and> c \<le> 0x200A)
     \<or> c \<in> set [0x2028, 0x2029, 0x202F, 0x205F, 0x3000, 0xFEFF]"

section \<open>Positions and ranges\<close>

record Position =
  line :: int
  character :: int

text \<open>The field \<open>end\<close> of the language server's \<open>Range\<close> is written \<open>endp\<close>.\<close>

record Range =
  start :: Position
  endp :: Position

text \<open>
  \<open>DocumentClassList\<close> and \<open>DocumentClassName\<close> of \<open>./state\<close>. The fields
  \<open>classList\<close> and \<open>range\<close> of a \<open>DocumentClassName\<close> carry the suffix
  \<open>_cn\<close>, the field \<open>range\<close> of a \<open>DocumentClassList\<close> the suffix \<open>_cl\<close>.
\<close>

record DocumentClassList =
  classList :: js_string
  range_cl :: Range
  important :: "bool option"

record DocumentClassName =
  className :: js_string
  classList_cn :: DocumentClassList
  relativeRange :: Range
  range_cn :: Range
  variants :: "js_string list option"

subsection \<open>The line-column package\<close>

text \<open>
  Modelled from the spec: \<open>lineColumn(str).fromIndex(index)\<close> of the npm package
  \<open>line-column\<close>, which is imported by \<open>find.ts\<close> and is not under src/. For an index
  inside the string the 1-based line is one more than the number of newline characters
  before the index, and the 1-based column is one more than the number of characters
  since the last newline. For an index outside \<open>[0, length str)\<close> the package returns
  \<open>null\<close>; that is the case the \<open>??\<close> fallback of \<open>indexToPosition\<close> handles.
\<close>

definition lineColumn_fromIndex :: "js_string \<Rightarrow> int \<Rightarrow> (int \<times> int) option" where
  "lineColumn_fromIndex str index =
     (if index < 0 \<or> int (length str) \<le> index then None
      else
        let pre = take (nat index) str
        in Some (int (length (filter (\<lambda>c. c = newline) pre)) + 1,
                 int (length (takeWhile (\<lambda>c. c \<noteq> newline) (rev pre))) + 1))"

text \<open>\<open>indexToPosition\<close>, lines 519 to 522.\<close>

definition indexToPosition :: "js_string \<Rightarrow> int \<Rightarrow> Position" where
  "indexToPosition str index =
     (case (case lineColumn_fromIndex (str @ [newline]) index of
              None \<Rightarrow> (1, 1)
            | Some lc \<Rightarrow> lc) of
        (l, c) \<Rightarrow> \<lparr>line = l - 1, character = c - 1\<rparr>)"

text \<open>
  The expression that both tokenizers use for the field \<open>range\<close> of a token
  (lines 56 to 65 and 127 to 136): \<open>range\<close> is the range of the class list,
  \<open>start\<close> and \<open>end\<close> are the token's positions inside the class list.
\<close>

definition documentRange :: "Range \<Rightarrow> Position \<Rightarrow> Position \<Rightarrow> Range" where
  "documentRange rng start' end' =
     \<lparr>start =
        \<lparr>line = line (start rng) + line start',
         character = (if line end' = 0 then character (start rng) else 0) + character start'\<rparr>,
      endp =
        \<lparr>line = line (start rng) + line end',
         character = (if line end' = 0 then character (start rng) else 0) + character end'\<rparr>\<rparr>"

section \<open>The tokenizer with variants\<close>

text \<open>\<open>SEPARATOR_CHARS\<close>, lines 73 to 90, in the order of the source.\<close>

definition SEPARATOR_CHARS :: "code_unit list" where
  "SEPARATOR_CHARS =
     [0x20, 0x0A, 0x09, 0x0D, 0x0C, 0x0B, 0xA0, 0x1680, 0x2000, 0x200A,
      0x2028, 0x2029, 0x202F, 0x205F, 0x3000, 0xFEFF]"

text \<open>The local variables of \<open>getClassNamesAndVariantsInClassList\<close>.\<close>

record scan_state =
  searchingForStart :: bool
  globalStack :: "js_string list"
  globalStackLengths :: "nat list"
  localStack :: "js_string list"
  classInfo :: "DocumentClassName list"
  wordIndex :: int

definition init_state :: scan_state where
  "init_state =
     \<lparr>searchingForStart = True, globalStack = [], globalStackLengths = [],
      localStack = [], classInfo = [], wordIndex = 0\<rparr>"

text \<open>Setting the \<open>length\<close> of an array to a negative number throws a RangeError.\<close>

datatype error = RangeError

text \<open>The closure \<open>pushClassInfo\<close>, lines 103 to 138.\<close>

definition localStackOffset :: "js_string list \<Rightarrow> int" where
  "localStackOffset ls = foldl (\<lambda>acc item. acc + int (length item) + 1) 0 ls"

definition pushClassInfo ::
  "DocumentClassList \<Rightarrow> js_string list \<Rightarrow> int \<Rightarrow> scan_state \<Rightarrow> scan_state" where
  "pushClassInfo cl blocklist idx st =
     (let name = substring (classList cl) (wordIndex st) idx;
          start' = indexToPosition (classList cl)
                     (idx - int (length name) - localStackOffset (localStack st));
          end' = indexToPosition (classList cl) idx
      in if name \<notin> set blocklist
         then st\<lparr>classInfo := classInfo st @
                [\<lparr>className = name,
                  classList_cn = cl,
                  relativeRange = \<lparr>start = start', endp = end'\<rparr>,
                  range_cn = documentRange (range_cl cl) start' end',
                  variants = Some (globalStack st @ localStack st)\<rparr>]\<rparr>
         else st)"

text \<open>
  The closing parenthesis, lines 156 to 167: \<open>pop\<close> of an empty array gives
  \<open>undefined\<close>, and neither \<open>undefined\<close> nor 0 passes the test \<open>if (lastLength)\<close>.
\<close>

definition closeGroup :: "scan_state \<Rightarrow> error + scan_state" where
  "closeGroup st =
     (let lastLength = (if globalStackLengths st = [] then None
                        else Some (last (globalStackLengths st)));
          st' = st\<lparr>globalStackLengths := butlast (globalStackLengths st)\<rparr>
      in case lastLength of
           None \<Rightarrow> Inr (st'\<lparr>searchingForStart := True\<rparr>)
         | Some n \<Rightarrow>
             if n \<noteq> 0 then
               (if int (length (globalStack st')) - int n < 0 then Inl RangeError
                else Inr (st'\<lparr>globalStack := take (length (globalStack st') - n) (globalStack st'),
                              searchingForStart := True\<rparr>))
             else Inr (st'\<lparr>searchingForStart := True\<rparr>))"

text \<open>The body of the loop, lines 141 to 173, in the order of its branches.\<close>

definition step ::
  "DocumentClassList \<Rightarrow> js_string list \<Rightarrow> int \<Rightarrow> code_unit \<Rightarrow> scan_state \<Rightarrow> error + scan_state" where
  "step cl blocklist idx currentChar st =
     (if \<not> searchingForStart st \<and> currentChar \<in> set SEPARATOR_CHARS then
        Inr ((pushClassInfo cl blocklist idx st)\<lparr>localStack := [], searchingForStart := True\<rparr>)
      else if \<not> searchingForStart st \<and> currentChar = colon then
        Inr (st\<lparr>localStack := localStack st @ [substring (classList cl) (wordIndex st) idx],
                searchingForStart := True\<rparr>)
      else if currentChar = lparen then
        Inr (st\<lparr>globalStack := globalStack st @ localStack st,
                globalStackLengths := globalStackLengths st @ [length (localStack st)],
                localStack := [],
                searchingForStart := True\<rparr>)
      else if currentChar = rparen then
        closeGroup ((if \<not> searchingForStart st then pushClassInfo cl blocklist idx st else st)
                      \<lparr>localStack := []\<rparr>)
      else if searchingForStart st \<and> currentChar \<notin> set SEPARATOR_CHARS then
        Inr (st\<lparr>wordIndex := idx, searchingForStart := False\<rparr>)
      else Inr st)"

text \<open>
  The loop of lines 140 to 174: \<open>idx\<close> is the loop counter and the list holds the
  characters of the class list from \<open>idx\<close> on.
\<close>

fun scan ::
  "DocumentClassList \<Rightarrow> js_string list \<Rightarrow> int \<Rightarrow> js_string \<Rightarrow> scan_state \<Rightarrow> error + scan_state" where
  "scan cl blocklist idx [] st = Inr st"
| "scan cl blocklist idx (c # cs) st =
     (case step cl blocklist idx c st of
        Inl e \<Rightarrow> Inl e
      | Inr st' \<Rightarrow> scan cl blocklist (idx + 1) cs st')"

definition getClassNamesAndVariantsInClassList ::
  "DocumentClassList \<Rightarrow> js_string list \<Rightarrow> error + DocumentClassName list" where
  "getClassNamesAndVariantsInClassList cl blocklist =
     (case scan cl blocklist 0 (classList cl) init_state of
        Inl e \<Rightarrow> Inl e
      | Inr st \<Rightarrow>
          Inr (classInfo
                 (if \<not> searchingForStart st
                  then pushClassInfo cl blocklist (int (length (classList cl))) st
                  else st)))"

text \<open>The name and the variants of each token of a result.\<close>

definition namesAndVariants ::
  "error + DocumentClassName list \<Rightarrow> error + (js_string \<times> js_string list option) list" where
  "namesAndVariants r = map_sum id (map (\<lambda>t. (className t, variants t))) r"

section \<open>The flat tokenizer\<close>

text \<open>
  \<open>classList.split(/(\s+)/)\<close>: the string is cut at every maximal run of whitespace,
  and, the run being a capturing group, the runs are kept: the result alternates words
  (even indexes) and runs (odd indexes), starts and ends with a word, and a word at
  either end may be empty. The empty string gives one empty word.
\<close>

function split_ws :: "js_string \<Rightarrow> js_string list" where
  "split_ws s =
     (if dropWhile (\<lambda>c. \<not> isWhiteSpace c) s = [] then [takeWhile (\<lambda>c. \<not> isWhiteSpace c) s]
      else takeWhile (\<lambda>c. \<not> isWhiteSpace c) s
           # takeWhile isWhiteSpace (dropWhile (\<lambda>c. \<not> isWhiteSpace c) s)
           # split_ws (dropWhile isWhiteSpace (dropWhile (\<lambda>c. \<not> isWhiteSpace c) s)))"
  by pat_completeness auto
termination
proof (relation "measure length")
  show "wf (measure (length :: js_string \<Rightarrow> nat))" by simp
next
  fix s :: js_string
  assume ne: "dropWhile (\<lambda>c. \<not> isWhiteSpace c) s \<noteq> []"
  then obtain c r where cr: "dropWhile (\<lambda>c. \<not> isWhiteSpace c) s = c # r"
    by (cases "dropWhile (\<lambda>c. \<not> isWhiteSpace c) s") auto
  have "isWhiteSpace c"
    using hd_dropWhile [OF ne] cr by simp
  then have "length (dropWhile isWhiteSpace (c # r)) \<le> length r"
    by (simp add: length_dropWhile_le)
  moreover have "length (c # r) \<le> length s"
    using length_dropWhile_le [of "\<lambda>c. \<not> isWhiteSpace c" s] cr by simp
  ultimately show "(dropWhile isWhiteSpace (dropWhile (\<lambda>c. \<not> isWhiteSpace c) s), s)
      \<in> measure length"
    using cr by simp
qed

declare split_ws.simps [simp del]

text \<open>
  The loop of lines 41 to 69 over \<open>parts\<close>, with its counter \<open>i\<close>, the running
  \<open>index\<close> and the array \<open>names\<close>.
\<close>

fun flat_loop ::
  "DocumentClassList \<Rightarrow> js_string list \<Rightarrow> js_string list \<Rightarrow> nat \<Rightarrow> int \<Rightarrow>
   DocumentClassName list \<Rightarrow> DocumentClassName list" where
  "flat_loop cl blocklist [] i index names = names"
| "flat_loop cl blocklist (p # ps) i index names =
     flat_loop cl blocklist ps (i + 1) (index + int (length p))
       (if i mod 2 = 0 \<and> p \<notin> set blocklist
        then names @
          [\<lparr>className = p,
            classList_cn = cl,
            relativeRange =
              \<lparr>start = indexToPosition (classList cl) index,
               endp = indexToPosition (classList cl) (index + int (length p))\<rparr>,
            range_cn =
              documentRange (range_cl cl)
                (indexToPosition (classList cl) index)
                (indexToPosition (classList cl) (index + int (length p))),
            variants = None\<rparr>]
        else names)"

definition getClassNamesInClassList ::
  "DocumentClassList \<Rightarrow> js_string list \<Rightarrow> DocumentClassName list" where
  "getClassNamesInClassList cl blocklist =
     flat_loop cl blocklist (split_ws (classList cl)) 0 0 []"

section \<open>Helper functions in a style sheet\<close>

datatype helper_kind = Theme | Config

record HelperRanges =
  full :: Range
  path_range :: Range

record DocumentHelperFunction =
  helper :: helper_kind
  path :: js_string
  ranges :: HelperRanges

text \<open>A match of the regular expression of line 469: its index and its named groups.\<close>

record HelperMatch =
  match_index :: nat
  group_prefix :: js_string
  group_helper :: js_string
  group_innerPrefix :: js_string
  group_path :: js_string
  match_length :: nat

definition isQuote :: "code_unit \<Rightarrow> bool" where
  "isQuote c \<longleftrightarrow> c = squote \<or> c = dquote"

text \<open>The class \<open>[\s:;/*(){}]\<close> of the group \<open>prefix\<close>.\<close>

definition isHelperPrefix :: "code_unit \<Rightarrow> bool" where
  "isHelperPrefix c \<longleftrightarrow>
     isWhiteSpace c \<or> c \<in> set [0x3A, 0x3B, 0x2F, 0x2A, 0x28, 0x29, 0x7B, 0x7D]"

definition startsWith :: "js_string \<Rightarrow> js_string \<Rightarrow> bool" where
  "startsWith s p \<longleftrightarrow> take (length p) s = p"

text \<open>
  The regular expression of line 469 tried at one index \<open>i\<close> of the text:
  one prefix character, \<open>config\<close> or \<open>theme\<close>, an opening parenthesis with the
  whitespace after it, then the shortest run without a closing parenthesis that is
  followed by whitespace and a closing parenthesis, which is the text up to the next
  closing parenthesis without its trailing whitespace.
\<close>

definition matchHelperAt :: "js_string \<Rightarrow> nat \<Rightarrow> HelperMatch option" where
  "matchHelperAt text i =
     (case drop i text of
        [] \<Rightarrow> None
      | p # r1 \<Rightarrow>
          if \<not> isHelperPrefix p then None
          else
            (case (if startsWith r1 (js ''config'') then Some (js ''config'')
                   else if startsWith r1 (js ''theme'') then Some (js ''theme'')
                   else None) of
               None \<Rightarrow> None
             | Some h \<Rightarrow>
                 (case drop (length h) r1 of
                    [] \<Rightarrow> None
                  | c # r2 \<Rightarrow>
                      if c \<noteq> lparen then None
                      else if dropWhile (\<lambda>x. x \<noteq> rparen) (dropWhile isWhiteSpace r2) = [] then None
                      else
                        Some \<lparr>match_index = i,
                              group_prefix = [p],
                              group_helper = h,
                              group_innerPrefix = lparen # takeWhile isWhiteSpace r2,
                              group_path =
                                dropTrailing isWhiteSpace
                                  (takeWhile (\<lambda>x. x \<noteq> rparen) (dropWhile isWhiteSpace r2)),
                              match_length =
                                1 + length h + 1 + length (takeWhile isWhiteSpace r2)
                                + length (takeWhile (\<lambda>x. x \<noteq> rparen) (dropWhile isWhiteSpace r2))
                                + 1\<rparr>)))"

text \<open>
  \<open>findAll\<close>, lines 17 to 24, for that regular expression: with the flag \<open>g\<close> each
  \<open>exec\<close> looks for the leftmost match at or after \<open>lastIndex\<close> and moves
  \<open>lastIndex\<close> to the end of the match. No match is empty, so the loop ends.
\<close>

function findAllHelpers :: "js_string \<Rightarrow> nat \<Rightarrow> HelperMatch list" where
  "findAllHelpers text lastIndex =
     (if length text \<le> lastIndex then []
      else
        (case matchHelperAt text lastIndex of
           None \<Rightarrow> findAllHelpers text (lastIndex + 1)
         | Some m \<Rightarrow> m # findAllHelpers text (lastIndex + match_length m)))"
  by pat_completeness auto
termination
proof (relation "measure (\<lambda>(s, lastIndex). length s - lastIndex)")
  show "wf (measure (\<lambda>(s :: js_string, lastIndex :: nat). length s - lastIndex))"
    by simp
next
  fix s :: js_string and lastIndex :: nat
  assume "\<not> length s \<le> lastIndex"
  then show "((s, lastIndex + 1), s, lastIndex)
      \<in> measure (\<lambda>(s, lastIndex). length s - lastIndex)"
    by simp
next
  fix s :: js_string and lastIndex :: nat and m :: HelperMatch
  assume inside: "\<not> length s \<le> lastIndex" and m: "matchHelperAt s lastIndex = Some m"
  from m have "0 < match_length m"
    by (auto simp: matchHelperAt_def split: list.splits if_splits option.splits)
  with inside show "((s, lastIndex + match_length m), s, lastIndex)
      \<in> measure (\<lambda>(s, lastIndex). length s - lastIndex)"
    by simp
qed

declare findAllHelpers.simps [simp del]

text \<open>\<open>getFirstCommaIndex\<close>, lines 447 to 461; \<open>i\<close> is the loop counter.\<close>

fun firstCommaFrom :: "js_string \<Rightarrow> nat \<Rightarrow> code_unit option \<Rightarrow> nat option" where
  "firstCommaFrom [] i quoteChar = None"
| "firstCommaFrom (char # cs) i quoteChar =
     (if char = comma \<and> quoteChar = None then Some i
      else if quoteChar = None \<and> (char = dquote \<or> char = squote)
        then firstCommaFrom cs (i + 1) (Some char)
      else if Some char = quoteChar then firstCommaFrom cs (i + 1) None
      else firstCommaFrom cs (i + 1) quoteChar)"

definition getFirstCommaIndex :: "js_string \<Rightarrow> nat option" where
  "getFirstCommaIndex str = firstCommaFrom str 0 None"

text \<open>
  The regular expression of line 484,
  \<open>/^([^\s]+)(?![^\[]*\])(?:\s*\/\s*([^\/\s]+))$/\<close>. \<open>closesBracket r\<close> is the
  body of the lookahead at \<open>r\<close>: a closing bracket with no opening bracket before it.
  \<open>modifierTail r\<close> is the last group at \<open>r\<close>: whitespace, a slash, whitespace and then,
  up to the end, one or more characters that are neither slashes nor whitespace.
  \<open>matchModifier p k\<close> backtracks over the length of the first group, the longest first,
  and gives the first group of the match.
\<close>

definition closesBracket :: "js_string \<Rightarrow> bool" where
  "closesBracket r =
     (case dropWhile (\<lambda>c. c \<noteq> lbracket \<and> c \<noteq> rbracket) r of
        [] \<Rightarrow> False
      | c # _ \<Rightarrow> c = rbracket)"

definition modifierTail :: "js_string \<Rightarrow> bool" where
  "modifierTail r =
     (case dropWhile isWhiteSpace r of
        [] \<Rightarrow> False
      | c # r' \<Rightarrow>
          c = slash \<and> dropWhile isWhiteSpace r' \<noteq> []
          \<and> list_all (\<lambda>x. x \<noteq> slash \<and> \<not> isWhiteSpace x) (dropWhile isWhiteSpace r'))"

fun matchModifier :: "js_string \<Rightarrow> nat \<Rightarrow> js_string option" where
  "matchModifier p 0 = None"
| "matchModifier p (Suc k) =
     (if \<not> closesBracket (drop (Suc k) p) \<and> modifierTail (drop (Suc k) p)
      then Some (take (Suc k) p)
      else matchModifier p k)"

text \<open>
  The path of a match, lines 474 to 488: the pair of \<open>quotesBefore\<close> and \<open>path\<close>.
\<close>

definition helperPath :: "js_string \<Rightarrow> js_string \<times> js_string" where
  "helperPath groupPath =
     (let path1 = (case getFirstCommaIndex groupPath of
                     None \<Rightarrow> groupPath
                   | Some commaIndex \<Rightarrow> dropTrailing isWhiteSpace (take commaIndex groupPath));
          path2 = dropTrailing isQuote path1;
          quotesBefore = takeWhile isQuote path2;
          path3 = dropWhile isQuote path2;
          path4 = (case matchModifier path3 (length (takeWhile (\<lambda>c. \<not> isWhiteSpace c) path3)) of
                     None \<Rightarrow> path3
                   | Some g \<Rightarrow> g);
          path5 = dropTrailing isQuote (dropTrailing isWhiteSpace path4)
      in (quotesBefore, path5))"

text \<open>
  \<open>findHelperFunctionsInRange\<close>, lines 463 to 517. \<open>getTextWithoutComments\<close> and
  \<open>resolveRange\<close> are imported from files that are not under src/: \<open>text\<close> is the
  text that the first one returned, and the second one is the parameter
  \<open>resolveRange\<close>.
\<close>

definition helperOfMatch ::
  "(Range \<Rightarrow> Range option \<Rightarrow> Range) \<Rightarrow> js_string \<Rightarrow> Range option \<Rightarrow> HelperMatch \<Rightarrow>
   DocumentHelperFunction" where
  "helperOfMatch resolveRange text rng m =
     (case helperPath (group_path m) of
        (quotesBefore, path') \<Rightarrow>
          (let startIndex = int (match_index m) + int (length (group_prefix m))
                 + int (length (group_helper m)) + int (length (group_innerPrefix m))
           in \<lparr>helper = (if group_helper m = js ''theme'' then Theme else Config),
               path = path',
               ranges =
                 \<lparr>full = resolveRange
                     \<lparr>start = indexToPosition text startIndex,
                      endp = indexToPosition text (startIndex + int (length (group_path m)))\<rparr> rng,
                  path_range = resolveRange
                     \<lparr>start = indexToPosition text (startIndex + int (length quotesBefore)),
                      endp = indexToPosition text
                               (startIndex + int (length quotesBefore) + int (length path'))\<rparr> rng\<rparr>\<rparr>))"

definition findHelperFunctionsInRange ::
  "(Range \<Rightarrow> Range option \<Rightarrow> Range) \<Rightarrow> js_string \<Rightarrow> Range option \<Rightarrow>
   DocumentHelperFunction list" where
  "findHelperFunctionsInRange resolveRange text rng =
     map (helperOfMatch resolveRange text rng) (findAllHelpers text 0)"

section \<open>Offsets of positions\<close>

text \<open>
  The offset that a position of a text stands for: the offset of the start of its line
  plus its character. It reads a range of positions back as a pair of offsets, so that
  "the substring at a range" can be written down.
\<close>

fun lineStart :: "js_string \<Rightarrow> nat \<Rightarrow> nat" where
  "lineStart s 0 = 0"
| "lineStart [] (Suc n) = 0"
| "lineStart (c # cs) (Suc n) =
     (if c = newline then 1 + lineStart cs n else 1 + lineStart cs (Suc n))"

definition offsetAt :: "js_string \<Rightarrow> Position \<Rightarrow> int" where
  "offsetAt s p = int (lineStart s (nat (line p))) + character p"

definition textAt :: "js_string \<Rightarrow> Range \<Rightarrow> js_string" where
  "textAt s r = substring s (offsetAt s (start r)) (offsetAt s (endp r))"

section \<open>Invariants of the scan and example inputs\<close>

text \<open>
  The counts on \<open>globalStackLengths\<close> add up to the length of \<open>globalStack\<close>: each
  opening parenthesis pushes as many variants as the count it records.
\<close>

definition balanced :: "scan_state \<Rightarrow> bool" where
  "balanced st \<longleftrightarrow> sum_list (globalStackLengths st) = length (globalStack st)"

text \<open>No token of the list has a name of the blocklist.\<close>

definition allowed :: "js_string list \<Rightarrow> DocumentClassName list \<Rightarrow> bool" where
  "allowed bl toks \<longleftrightarrow> list_all (\<lambda>t. className t \<notin> set bl) toks"

text \<open>
  A class list that starts at line 5, column 7 of its document; its end is where its
  text ends.
\<close>

definition spanAt57 :: "js_string \<Rightarrow> DocumentClassList" where
  "spanAt57 s =
     (let e = indexToPosition s (int (length s))
      in \<lparr>classList = s,
          range_cl =
            \<lparr>start = \<lparr>line = 5, character = 7\<rparr>,
             endp = \<lparr>line = 5 + line e,
                     character = (if line e = 0 then 7 else 0) + character e\<rparr>\<rparr>,
          important = None\<rparr>)"

text \<open>The name of a token with its range inside the class list.\<close>

definition nameAndRange :: "DocumentClassName \<Rightarrow> js_string \<times> Range" where
  "nameAndRange t = (className t, relativeRange t)"

text \<open>
  In a list of parts that alternates words and runs of whitespace, the words have no
  whitespace; \<open>w\<close> tells whether the first part is a word.
\<close>

fun wordsAt :: "bool \<Rightarrow> js_string list \<Rightarrow> bool" where
  "wordsAt w [] = True"
| "wordsAt w (p # ps) = ((if w then list_all (\<lambda>c. \<not> isWhiteSpace c) p else True) \<and> wordsAt (\<not> w) ps)"

text \<open>\<open>endsWith s x\<close>: the string \<open>s\<close> ends with the string \<open>x\<close>.\<close>

definition endsWith :: "js_string \<Rightarrow> js_string \<Rightarrow> bool" where
  "endsWith s x \<longleftrightarrow> length x \<le> length s \<and> drop (length s - length x) s = x"





text \<open>
  The words of a list of parts that alternates words and runs of whitespace; \<open>w\<close>
  tells whether the first part is a word.
\<close>

fun wordParts :: "bool \<Rightarrow> js_string list \<Rightarrow> js_string list" where
  "wordParts w [] = []"
| "wordParts w (p # ps) = (if w then [p] else []) @ wordParts (\<not> w) ps"

text \<open>
  A character that is no colon and no parenthesis and that, when it is whitespace, is one
  of \<open>SEPARATOR_CHARS\<close>.
\<close>

definition plain :: "code_unit \<Rightarrow> bool" where
  "plain c \<longleftrightarrow> c \<noteq> colon \<and> c \<noteq> lparen \<and> c \<noteq> rparen
     \<and> (if isWhiteSpace c then c \<in> set SEPARATOR_CHARS else True)"

text \<open>The state after the last lines, 176 to 178, of the tokenizer with variants.\<close>

definition finishScan :: "DocumentClassList \<Rightarrow> js_string list \<Rightarrow> scan_state \<Rightarrow> scan_state" where
  "finishScan cl bl st =
     (if \<not> searchingForStart st then pushClassInfo cl bl (int (length (classList cl))) st else st)"

text \<open>
  A rule of a style sheet with the call \<open>theme('colors.red.500' / 50, red)\<close>:
  \<open>.a { color: theme('colors.red.500' / 50, red); }\<close>. The same text with a second
  helper, \<open>config( "x,y" )\<close>.
\<close>

definition themeCall :: js_string where
  "themeCall = js ''theme('' @ [squote] @ js ''colors.red.500'' @ [squote] @ js '' / 50, red)''"

definition themeRule :: js_string where
  "themeRule = js ''.a { color: '' @ themeCall @ js ''; }''"

text \<open>\<open>resolveRange\<close> when there is no enclosing range: the range itself.\<close>

definition resolveUnchanged :: "Range \<Rightarrow> Range option \<Rightarrow> Range" where
  "resolveUnchanged r enclosing = r"

section \<open>The scan never fails\<close>

lemma pushClassInfo_fields [simp]:
  "globalStack (pushClassInfo cl bl idx st) = globalStack st"
  "globalStackLengths (pushClassInfo cl bl idx st) = globalStackLengths st"
  "localStack (pushClassInfo cl bl idx st) = localStack st"
  "searchingForStart (pushClassInfo cl bl idx st) = searchingForStart st"
  "wordIndex (pushClassInfo cl bl idx st) = wordIndex st"
  by (simp_all add: pushClassInfo_def Let_def)

lemma closeGroup_fields:
  assumes "closeGroup st = Inr st'"
  shows "classInfo st' = classInfo st" "localStack st' = localStack st"
    "wordIndex st' = wordIndex st" "searchingForStart st' = True"
  using assms by (auto simp: closeGroup_def Let_def split: option.splits if_splits)

lemma closeGroup_balanced:
  assumes "balanced st"
  shows "\<exists>st'. closeGroup st = Inr st' \<and> balanced st'"
proof (cases "globalStackLengths st = []")
  case True
  with assms show ?thesis by (simp add: closeGroup_def balanced_def)
next
  case False
  then have parts: "globalStackLengths st
      = butlast (globalStackLengths st) @ [last (globalStackLengths st)]"
    by simp
  have "sum_list (globalStackLengths st) =
      sum_list (butlast (globalStackLengths st)) + last (globalStackLengths st)"
    by (subst parts) simp
  with assms have "sum_list (butlast (globalStackLengths st)) + last (globalStackLengths st)
      = length (globalStack st)"
    by (simp add: balanced_def)
  with False show ?thesis
    by (auto simp: closeGroup_def balanced_def Let_def)
qed

lemma balanced_update [simp]:
  "balanced (st\<lparr>localStack := l\<rparr>) = balanced st"
  "balanced (st\<lparr>searchingForStart := b\<rparr>) = balanced st"
  "balanced (st\<lparr>wordIndex := w\<rparr>) = balanced st"
  "balanced (st\<lparr>classInfo := ci\<rparr>) = balanced st"
  "balanced (pushClassInfo cl bl idx st) = balanced st"
  by (simp_all add: balanced_def)

lemma step_balanced:
  assumes "balanced st"
  shows "\<exists>st'. step cl bl idx c st = Inr st' \<and> balanced st'"
proof -
  have open_group: "balanced (st\<lparr>globalStack := globalStack st @ localStack st,
      globalStackLengths := globalStackLengths st @ [length (localStack st)],
      localStack := [], searchingForStart := True\<rparr>)"
    using assms by (simp add: balanced_def)
  have close1: "\<exists>st'. closeGroup ((pushClassInfo cl bl idx st)\<lparr>localStack := []\<rparr>) = Inr st'
      \<and> balanced st'"
    by (rule closeGroup_balanced) (use assms in simp)
  have close2: "\<exists>st'. closeGroup (st\<lparr>localStack := []\<rparr>) = Inr st' \<and> balanced st'"
    by (rule closeGroup_balanced) (use assms in simp)
  show ?thesis
    unfolding step_def using assms open_group close1 close2 by auto
qed

lemma scan_balanced:
  "balanced st \<Longrightarrow> \<exists>st'. scan cl bl idx cs st = Inr st' \<and> balanced st'"
proof (induction cs arbitrary: idx st)
  case Nil
  then show ?case by simp
next
  case (Cons c cs)
  from step_balanced [OF Cons.prems] obtain st1
    where st1: "step cl bl idx c st = Inr st1" "balanced st1" by blast
  from Cons.IH [OF st1(2)] st1(1) show ?case by simp
qed

lemma balanced_init: "balanced init_state"
  by (simp add: balanced_def init_state_def)

lemma scan_total: "\<exists>st'. scan cl bl 0 cs init_state = Inr st' \<and> balanced st'"
  by (rule scan_balanced [OF balanced_init])

section \<open>Whitespace and separators\<close>

lemma split_ws_Nil: "split_ws [] = [[]]"
  by (simp add: split_ws.simps)

lemma split_ws_whitespace:
  assumes "s \<noteq> []" "list_all isWhiteSpace s"
  shows "split_ws s = [[], s, []]"
proof -
  from assms obtain c r where s: "s = c # r" by (cases s) auto
  with assms have c: "isWhiteSpace c" by simp
  have d: "dropWhile (\<lambda>c. \<not> isWhiteSpace c) s = s" "takeWhile (\<lambda>c. \<not> isWhiteSpace c) s = []"
    using s c by simp_all
  have t: "takeWhile isWhiteSpace s = s" "dropWhile isWhiteSpace s = []"
    using assms(2) by (simp_all add: list_all_iff)
  show ?thesis
    by (subst split_ws.simps) (simp add: d t assms(1) split_ws_Nil)
qed

lemma separators_not_parens:
  "c \<in> set SEPARATOR_CHARS \<Longrightarrow> c \<noteq> lparen \<and> c \<noteq> rparen \<and> c \<noteq> colon"
  by (auto simp: SEPARATOR_CHARS_def lparen_def rparen_def colon_def)

lemma step_separator_searching:
  "searchingForStart st \<Longrightarrow> c \<in> set SEPARATOR_CHARS \<Longrightarrow> step cl bl idx c st = Inr st"
  using separators_not_parens [of c] by (simp add: step_def)

lemma scan_separators:
  "searchingForStart st \<Longrightarrow> list_all (\<lambda>c. c \<in> set SEPARATOR_CHARS) cs
     \<Longrightarrow> scan cl bl idx cs st = Inr st"
  by (induction cs arbitrary: idx) (simp_all add: step_separator_searching)

section \<open>Offsets and positions\<close>


lemma indexToPosition_inside:
  assumes "0 \<le> index" "index \<le> int (length str)"
  shows "indexToPosition str index =
     \<lparr>line = int (length (filter (\<lambda>c. c = newline) (take (nat index) str))),
      character = int (length (takeWhile (\<lambda>c. c \<noteq> newline) (rev (take (nat index) str))))\<rparr>"
  using assms by (simp add: indexToPosition_def lineColumn_fromIndex_def Let_def)

lemma indexToPosition_0: "indexToPosition str 0 = \<lparr>line = 0, character = 0\<rparr>"
  by (simp add: indexToPosition_inside)


lemma substring_inside:
  assumes "0 \<le> a" "a \<le> b" "b \<le> int (length s)"
  shows "substring s a b = take (nat (b - a)) (drop (nat a) s)"
  using assms by (simp add: substring_def Let_def min_def max_def)



lemma substring_middle:
  "substring (pre @ p @ post) (int (length pre)) (int (length pre) + int (length p)) = p"
  by (simp add: substring_inside)




lemma same_line:
  assumes "newline \<notin> set p"
  shows "line (indexToPosition (pre @ p @ post) (int (length pre)))
       = line (indexToPosition (pre @ p @ post) (int (length pre) + int (length p)))"
proof -
  have "filter (\<lambda>c. c = newline) p = []"
    using assms by (auto simp: filter_empty_conv)
  moreover have "int (length pre) + int (length p) = int (length (pre @ p))" by simp
  ultimately show ?thesis
    by (simp only: indexToPosition_inside) (simp add: indexToPosition_inside)
qed

section \<open>The tokens of the flat tokenizer\<close>

lemma split_ws_concat: "concat (split_ws s) = s"
proof (induction s rule: split_ws.induct)
  case (1 s)
  show ?case
  proof (cases "dropWhile (\<lambda>c. \<not> isWhiteSpace c) s = []")
    case True
    then have "takeWhile (\<lambda>c. \<not> isWhiteSpace c) s = s"
      using takeWhile_dropWhile_id [of "\<lambda>c. \<not> isWhiteSpace c" s] by simp
    with True show ?thesis by (subst split_ws.simps) simp
  next
    case False
    from 1 [OF False] show ?thesis
      by (subst split_ws.simps) (simp add: False)
  qed
qed

lemma split_ws_wordsAt: "wordsAt True (split_ws s)"
proof (induction s rule: split_ws.induct)
  case (1 s)
  have w: "list_all (\<lambda>c. \<not> isWhiteSpace c) (takeWhile (\<lambda>c. \<not> isWhiteSpace c) s)"
    by (auto simp: list_all_iff dest: set_takeWhileD)
  show ?case
  proof (cases "dropWhile (\<lambda>c. \<not> isWhiteSpace c) s = []")
    case True
    with w show ?thesis by (subst split_ws.simps) simp
  next
    case False
    from 1 [OF False] w show ?thesis
      by (subst split_ws.simps) (simp add: False)
  qed
qed

lemma flat_loop_invariant:
  assumes tok: "\<And>pre p post. classList cl = pre @ p @ post
      \<Longrightarrow> list_all (\<lambda>c. \<not> isWhiteSpace c) p
      \<Longrightarrow> Q \<lparr>className = p, classList_cn = cl,
              relativeRange =
                \<lparr>start = indexToPosition (classList cl) (int (length pre)),
                 endp = indexToPosition (classList cl) (int (length pre) + int (length p))\<rparr>,
              range_cn = documentRange (range_cl cl)
                (indexToPosition (classList cl) (int (length pre)))
                (indexToPosition (classList cl) (int (length pre) + int (length p))),
              variants = None\<rparr>"
  shows "classList cl = pre @ concat ps \<Longrightarrow> index = int (length pre) \<Longrightarrow> wordsAt (even i) ps
     \<Longrightarrow> list_all Q names \<Longrightarrow> list_all Q (flat_loop cl bl ps i index names)"
proof (induction ps arbitrary: pre i index names)
  case Nil
  then show ?case by simp
next
  case (Cons p ps)
  have split: "classList cl = (pre @ p) @ concat ps"
    using Cons.prems(1) by simp
  have idx: "index + int (length p) = int (length (pre @ p))"
    using Cons.prems(2) by simp
  have alt: "wordsAt (even (i + 1)) ps"
    using Cons.prems(3) by simp
  have names: "list_all Q (if i mod 2 = 0 \<and> p \<notin> set bl
        then names @
          [\<lparr>className = p, classList_cn = cl,
            relativeRange =
              \<lparr>start = indexToPosition (classList cl) index,
               endp = indexToPosition (classList cl) (index + int (length p))\<rparr>,
            range_cn = documentRange (range_cl cl)
                (indexToPosition (classList cl) index)
                (indexToPosition (classList cl) (index + int (length p))),
            variants = None\<rparr>]
        else names)"
  proof (cases "i mod 2 = 0 \<and> p \<notin> set bl")
    case True
    then have "list_all (\<lambda>c. \<not> isWhiteSpace c) p"
      using Cons.prems(3) by (simp add: even_iff_mod_2_eq_zero)
    from tok [of pre p "concat ps", OF _ this] Cons.prems(1,2,4) True
    show ?thesis by simp
  next
    case False
    with Cons.prems(4) show ?thesis by auto
  qed
  from Cons.IH [OF split idx alt names] show ?case by simp
qed

lemma flat_tokens_all:
  assumes "\<And>pre p post. classList cl = pre @ p @ post
      \<Longrightarrow> list_all (\<lambda>c. \<not> isWhiteSpace c) p
      \<Longrightarrow> Q \<lparr>className = p, classList_cn = cl,
              relativeRange =
                \<lparr>start = indexToPosition (classList cl) (int (length pre)),
                 endp = indexToPosition (classList cl) (int (length pre) + int (length p))\<rparr>,
              range_cn = documentRange (range_cl cl)
                (indexToPosition (classList cl) (int (length pre)))
                (indexToPosition (classList cl) (int (length pre) + int (length p))),
              variants = None\<rparr>"
  shows "list_all Q (getClassNamesInClassList cl bl)"
  unfolding getClassNamesInClassList_def
  by (rule flat_loop_invariant [where pre = "[]"])
     (use assms in \<open>simp_all add: split_ws_concat split_ws_wordsAt\<close>)

lemma flat_same_line:
  "list_all (\<lambda>t. line (start (relativeRange t)) = line (endp (relativeRange t)))
     (getClassNamesInClassList cl bl)"
proof (rule flat_tokens_all)
  fix pre p post
  assume split: "classList cl = pre @ p @ post" and p: "list_all (\<lambda>c. \<not> isWhiteSpace c) p"
  have "isWhiteSpace newline" by (simp add: isWhiteSpace_def newline_def)
  with p have "newline \<notin> set p" by (auto simp: list_all_iff)
  from same_line [OF this, of pre post] split
  show "line (start (relativeRange \<lparr>className = p, classList_cn = cl,
              relativeRange =
                \<lparr>start = indexToPosition (classList cl) (int (length pre)),
                 endp = indexToPosition (classList cl) (int (length pre) + int (length p))\<rparr>,
              range_cn = documentRange (range_cl cl)
                (indexToPosition (classList cl) (int (length pre)))
                (indexToPosition (classList cl) (int (length pre) + int (length p))),
              variants = None\<rparr>))
      = line (endp (relativeRange \<lparr>className = p, classList_cn = cl,
              relativeRange =
                \<lparr>start = indexToPosition (classList cl) (int (length pre)),
                 endp = indexToPosition (classList cl) (int (length pre) + int (length p))\<rparr>,
              range_cn = documentRange (range_cl cl)
                (indexToPosition (classList cl) (int (length pre)))
                (indexToPosition (classList cl) (int (length pre) + int (length p))),
              variants = None\<rparr>))"
    by simp
qed


lemma flat_document_range:
  "list_all (\<lambda>t. range_cn t
       = documentRange (range_cl cl) (start (relativeRange t)) (endp (relativeRange t)))
     (getClassNamesInClassList cl bl)"
  by (rule flat_tokens_all) simp

section \<open>The tokens of the tokenizer with variants\<close>

lemma step_cases:
  assumes "step cl bl idx c st = Inr st'"
  obtains
    (emit) "\<not> searchingForStart st" "c \<in> set SEPARATOR_CHARS"
      "st' = (pushClassInfo cl bl idx st)\<lparr>localStack := [], searchingForStart := True\<rparr>"
  | (push_variant) "\<not> searchingForStart st" "c = colon"
      "st' = st\<lparr>localStack := localStack st @ [substring (classList cl) (wordIndex st) idx],
                searchingForStart := True\<rparr>"
  | (open_paren) "c = lparen"
      "st' = st\<lparr>globalStack := globalStack st @ localStack st,
                globalStackLengths := globalStackLengths st @ [length (localStack st)],
                localStack := [], searchingForStart := True\<rparr>"
  | (close_word) "c = rparen" "\<not> searchingForStart st"
      "closeGroup ((pushClassInfo cl bl idx st)\<lparr>localStack := []\<rparr>) = Inr st'"
  | (close_plain) "c = rparen" "searchingForStart st"
      "closeGroup (st\<lparr>localStack := []\<rparr>) = Inr st'"
  | (word_start) "searchingForStart st" "c \<notin> set SEPARATOR_CHARS" "c \<noteq> lparen" "c \<noteq> rparen"
      "st' = st\<lparr>wordIndex := idx, searchingForStart := False\<rparr>"
  | (skip) "c \<noteq> colon \<or> searchingForStart st" "c \<noteq> lparen" "c \<noteq> rparen" "st' = st"
proof (cases "searchingForStart st")
  case s: False
  show ?thesis
  proof (cases "c \<in> set SEPARATOR_CHARS")
    case True
    from assms s True
    have "st' = (pushClassInfo cl bl idx st)\<lparr>localStack := [], searchingForStart := True\<rparr>"
      by (simp add: step_def)
    from emit [OF s True this] show ?thesis .
  next
    case sep: False
    show ?thesis
    proof (cases "c = colon")
      case True
      from assms s sep True
      have "st' = st\<lparr>localStack := localStack st @ [substring (classList cl) (wordIndex st) idx],
                searchingForStart := True\<rparr>"
        by (simp add: step_def)
      from push_variant [OF s True this] show ?thesis .
    next
      case col: False
      show ?thesis
      proof (cases "c = lparen")
        case True
        from assms s sep col True
        have "st' = st\<lparr>globalStack := globalStack st @ localStack st,
                globalStackLengths := globalStackLengths st @ [length (localStack st)],
                localStack := [], searchingForStart := True\<rparr>"
          by (simp add: step_def)
        from open_paren [OF True this] show ?thesis .
      next
        case lp: False
        show ?thesis
        proof (cases "c = rparen")
          case True
          from assms s sep col lp True
          have "closeGroup ((pushClassInfo cl bl idx st)\<lparr>localStack := []\<rparr>) = Inr st'"
            by (simp add: step_def)
          from close_word [OF True s this] show ?thesis .
        next
          case rp: False
          from assms s sep col lp rp have "st' = st" by (simp add: step_def)
          from skip [OF _ lp rp this] col show ?thesis by blast
        qed
      qed
    qed
  qed
next
  case s: True
  show ?thesis
  proof (cases "c = lparen")
    case True
    from assms s True
    have "st' = st\<lparr>globalStack := globalStack st @ localStack st,
            globalStackLengths := globalStackLengths st @ [length (localStack st)],
            localStack := [], searchingForStart := True\<rparr>"
      by (simp add: step_def)
    from open_paren [OF True this] show ?thesis .
  next
    case lp: False
    show ?thesis
    proof (cases "c = rparen")
      case True
      from assms s lp True have "closeGroup (st\<lparr>localStack := []\<rparr>) = Inr st'"
        by (simp add: step_def)
      from close_plain [OF True s this] show ?thesis .
    next
      case rp: False
      show ?thesis
      proof (cases "c \<in> set SEPARATOR_CHARS")
        case True
        from assms s lp rp True have "st' = st" by (simp add: step_def)
        from skip [OF _ lp rp this] s show ?thesis by blast
      next
        case sep: False
        from assms s lp rp sep
        have "st' = st\<lparr>wordIndex := idx, searchingForStart := False\<rparr>"
          by (simp add: step_def)
        from word_start [OF s sep lp rp this] show ?thesis .
      qed
    qed
  qed
qed

lemma localStackOffset_simps [simp]:
  "localStackOffset [] = 0"
  "localStackOffset (ls @ [x]) = localStackOffset ls + int (length x) + 1"
  by (simp_all add: localStackOffset_def)














lemma push_list_all:
  assumes "list_all Q (classInfo st)"
    and "\<And>name s e vs. Q \<lparr>className = name, classList_cn = cl,
        relativeRange = \<lparr>start = s, endp = e\<rparr>,
        range_cn = documentRange (range_cl cl) s e, variants = Some vs\<rparr>"
  shows "list_all Q (classInfo (pushClassInfo cl bl idx st))"
  using assms by (simp add: pushClassInfo_def Let_def)

lemma step_list_all:
  assumes "list_all Q (classInfo st)"
    and "\<And>name s e vs. Q \<lparr>className = name, classList_cn = cl,
        relativeRange = \<lparr>start = s, endp = e\<rparr>,
        range_cn = documentRange (range_cl cl) s e, variants = Some vs\<rparr>"
    and "step cl bl idx c st = Inr st'"
  shows "list_all Q (classInfo st')"
  using assms(3)
proof (cases rule: step_cases)
  case emit
  with push_list_all [of Q st cl bl idx, OF assms(1,2)] show ?thesis by simp
next
  case close_word
  with push_list_all [of Q st cl bl idx, OF assms(1,2)] closeGroup_fields(1) [OF close_word(3)]
  show ?thesis by simp
next
  case close_plain
  with assms(1) closeGroup_fields(1) [OF close_plain(3)] show ?thesis by simp
qed (use assms(1) in simp_all)

lemma scan_list_all:
  assumes "\<And>name s e vs. Q \<lparr>className = name, classList_cn = cl,
        relativeRange = \<lparr>start = s, endp = e\<rparr>,
        range_cn = documentRange (range_cl cl) s e, variants = Some vs\<rparr>"
  shows "list_all Q (classInfo st) \<Longrightarrow> scan cl bl idx cs st = Inr st'
     \<Longrightarrow> list_all Q (classInfo st')"
proof (induction cs arbitrary: idx st)
  case Nil
  then show ?case by simp
next
  case (Cons c cs)
  from Cons.prems(2) obtain st1 where st1: "step cl bl idx c st = Inr st1"
    and rest: "scan cl bl (idx + 1) cs st1 = Inr st'"
    by (auto split: sum.splits)
  from step_list_all [of Q st cl bl idx c st1, OF Cons.prems(1) assms st1]
  have "list_all Q (classInfo st1)" .
  from Cons.IH [OF this rest] show ?case .
qed

lemma variant_document_range:
  "\<exists>toks. getClassNamesAndVariantsInClassList cl bl = Inr toks
      \<and> list_all (\<lambda>t. range_cn t
            = documentRange (range_cl cl) (start (relativeRange t)) (endp (relativeRange t))) toks"
proof -
  let ?Q = "\<lambda>t. range_cn t
            = documentRange (range_cl cl) (start (relativeRange t)) (endp (relativeRange t))"
  from scan_total obtain st where st: "scan cl bl 0 (classList cl) init_state = Inr st" by blast
  have "list_all ?Q (classInfo init_state)" by (simp add: init_state_def)
  from scan_list_all [of ?Q cl, OF _ this st] have "list_all ?Q (classInfo st)" by simp
  then have "list_all ?Q (classInfo (if \<not> searchingForStart st
      then pushClassInfo cl bl (int (length (classList cl))) st else st))"
    by (simp add: push_list_all)
  with st show ?thesis by (simp add: getClassNamesAndVariantsInClassList_def)
qed

section \<open>Class lists without variants and groups\<close>

lemma separators_are_whitespace: "list_all isWhiteSpace SEPARATOR_CHARS"
  by (simp add: SEPARATOR_CHARS_def isWhiteSpace_def)

lemma separator_iff:
  "plain c \<Longrightarrow> c \<in> set SEPARATOR_CHARS \<longleftrightarrow> isWhiteSpace c"
  using separators_are_whitespace by (auto simp: plain_def list_all_iff split: if_splits)

lemma flat_loop_names:
  "map className (flat_loop cl bl ps i index names)
     = map className names @ filter (\<lambda>p. p \<notin> set bl) (wordParts (even i) ps)"
  by (induction ps arbitrary: i index names)
     (simp_all add: even_iff_mod_2_eq_zero [symmetric])

lemma flat_names:
  "map className (getClassNamesInClassList cl bl)
     = filter (\<lambda>p. p \<notin> set bl) (wordParts True (split_ws (classList cl)))"
  by (simp add: getClassNamesInClassList_def flat_loop_names)

lemma step_in_word:
  assumes "\<not> searchingForStart st" "plain c" "\<not> isWhiteSpace c"
  shows "step cl bl idx c st = Inr st"
  using assms separator_iff [of c] by (simp add: step_def plain_def)

lemma scan_in_word:
  "\<not> searchingForStart st \<Longrightarrow> list_all (\<lambda>c. plain c \<and> \<not> isWhiteSpace c) w
     \<Longrightarrow> scan cl bl idx (w @ rest) st = scan cl bl (idx + int (length w)) rest st"
proof (induction w arbitrary: idx)
  case Nil
  then show ?case by simp
next
  case (Cons c w)
  then have "step cl bl idx c st = Inr st" by (simp add: step_in_word)
  then have "scan cl bl idx ((c # w) @ rest) st = scan cl bl (idx + 1) (w @ rest) st"
    by simp
  also have "\<dots> = scan cl bl (idx + 1 + int (length w)) rest st"
    using Cons.prems by (intro Cons.IH) simp_all
  also have "idx + 1 + int (length w) = idx + int (length (c # w))" by simp
  finally show ?case .
qed

lemma step_word_start:
  assumes "searchingForStart st" "plain c" "\<not> isWhiteSpace c"
  shows "step cl bl idx c st = Inr (st\<lparr>wordIndex := idx, searchingForStart := False\<rparr>)"
  using assms separator_iff [of c] by (simp add: step_def plain_def)

lemma scan_word:
  assumes "searchingForStart st" "w \<noteq> []" "list_all (\<lambda>c. plain c \<and> \<not> isWhiteSpace c) w"
  shows "scan cl bl idx (w @ rest) st
     = scan cl bl (idx + int (length w)) rest (st\<lparr>wordIndex := idx, searchingForStart := False\<rparr>)"
proof -
  from assms(2) obtain c w' where w: "w = c # w'" by (cases w) auto
  with assms(3) have c: "plain c" "\<not> isWhiteSpace c"
    and w': "list_all (\<lambda>c. plain c \<and> \<not> isWhiteSpace c) w'" by simp_all
  have "scan cl bl idx (w @ rest) st
      = scan cl bl (idx + 1) (w' @ rest) (st\<lparr>wordIndex := idx, searchingForStart := False\<rparr>)"
    using step_word_start [OF assms(1) c] w by simp
  also have "\<dots> = scan cl bl (idx + 1 + int (length w')) rest
      (st\<lparr>wordIndex := idx, searchingForStart := False\<rparr>)"
    by (rule scan_in_word) (simp_all add: w')
  also have "idx + 1 + int (length w') = idx + int (length w)" using w by simp
  finally show ?thesis .
qed

lemma scan_gap:
  "searchingForStart st \<Longrightarrow> list_all (\<lambda>c. c \<in> set SEPARATOR_CHARS) r
     \<Longrightarrow> scan cl bl idx (r @ rest) st = scan cl bl (idx + int (length r)) rest st"
proof (induction r arbitrary: idx)
  case Nil
  then show ?case by simp
next
  case (Cons c r)
  then have "step cl bl idx c st = Inr st" by (simp add: step_separator_searching)
  then have "scan cl bl idx ((c # r) @ rest) st = scan cl bl (idx + 1) (r @ rest) st"
    by simp
  also have "\<dots> = scan cl bl (idx + 1 + int (length r)) rest st"
    using Cons.prems by (intro Cons.IH) simp_all
  also have "idx + 1 + int (length r) = idx + int (length (c # r))" by simp
  finally show ?case .
qed

lemma step_word_end:
  assumes "\<not> searchingForStart st" "c \<in> set SEPARATOR_CHARS"
  shows "step cl bl idx c st
     = Inr ((pushClassInfo cl bl idx st)\<lparr>localStack := [], searchingForStart := True\<rparr>)"
  using assms by (simp add: step_def)

lemma push_names:
  assumes "classList cl = pre @ w @ rest" "wordIndex st = int (length pre)"
  shows "map className (classInfo (pushClassInfo cl bl (int (length pre) + int (length w)) st))
     = map className (classInfo st) @ filter (\<lambda>p. p \<notin> set bl) [w]"
  using assms by (simp add: pushClassInfo_def Let_def substring_middle)


lemma wordParts_split_ws:
  "wordParts True (split_ws s) =
     (if dropWhile (\<lambda>c. \<not> isWhiteSpace c) s = [] then [takeWhile (\<lambda>c. \<not> isWhiteSpace c) s]
      else takeWhile (\<lambda>c. \<not> isWhiteSpace c) s
           # wordParts True (split_ws (dropWhile isWhiteSpace (dropWhile (\<lambda>c. \<not> isWhiteSpace c) s))))"
  by (subst split_ws.simps) simp


lemma scan_last_word:
  assumes whole: "classList cl = pre @ w" and w: "list_all (\<lambda>c. plain c \<and> \<not> isWhiteSpace c) w"
    and s: "searchingForStart st"
  shows "\<exists>st'. scan cl bl (int (length pre)) w st = Inr st'
         \<and> map className (classInfo (finishScan cl bl st'))
           = map className (classInfo st)
             @ filter (\<lambda>p. p \<notin> set bl) (filter (\<lambda>p. p \<noteq> []) [w])"
proof (cases "w = []")
  case True
  with s show ?thesis by (simp add: finishScan_def)
next
  case False
  let ?st1 = "st\<lparr>wordIndex := int (length pre), searchingForStart := False\<rparr>"
  have "scan cl bl (int (length pre)) (w @ []) st
      = scan cl bl (int (length pre) + int (length w)) [] ?st1"
    by (rule scan_word [OF s False w])
  then have sc: "scan cl bl (int (length pre)) w st = Inr ?st1"
    by simp
  have whole': "classList cl = pre @ w @ []" using whole by simp
  have len: "int (length (classList cl)) = int (length pre) + int (length w)"
    using whole by simp
  have "map className (classInfo (pushClassInfo cl bl (int (length pre) + int (length w)) ?st1))
      = map className (classInfo ?st1) @ filter (\<lambda>p. p \<notin> set bl) [w]"
    by (rule push_names [OF whole']) simp
  then have "map className (classInfo (finishScan cl bl ?st1))
      = map className (classInfo st) @ filter (\<lambda>p. p \<notin> set bl) [w]"
    by (simp add: finishScan_def len)
  with sc False show ?thesis by simp
qed

lemma scan_word_and_gap:
  assumes whole: "classList cl = pre @ w @ (c # sp) @ s2"
    and w: "w \<noteq> []" "list_all (\<lambda>c. plain c \<and> \<not> isWhiteSpace c) w"
    and c: "c \<in> set SEPARATOR_CHARS" and sp: "list_all (\<lambda>c. c \<in> set SEPARATOR_CHARS) sp"
    and s: "searchingForStart st"
  shows "\<exists>st2. scan cl bl (int (length pre)) (w @ (c # sp) @ s2) st
           = scan cl bl (int (length (pre @ w @ c # sp))) s2 st2
         \<and> searchingForStart st2
         \<and> map className (classInfo st2)
           = map className (classInfo st) @ filter (\<lambda>p. p \<notin> set bl) [w]"
proof -
  let ?st1 = "st\<lparr>wordIndex := int (length pre), searchingForStart := False\<rparr>"
  let ?idx = "int (length pre) + int (length w)"
  let ?st2 = "(pushClassInfo cl bl ?idx ?st1)\<lparr>localStack := [], searchingForStart := True\<rparr>"
  have "map className (classInfo (pushClassInfo cl bl ?idx ?st1))
      = map className (classInfo ?st1) @ filter (\<lambda>p. p \<notin> set bl) [w]"
    by (rule push_names [OF whole]) simp
  then have names: "map className (classInfo ?st2)
      = map className (classInfo st) @ filter (\<lambda>p. p \<notin> set bl) [w]"
    by simp
  have "scan cl bl (int (length pre)) (w @ (c # sp) @ s2) st = scan cl bl ?idx ((c # sp) @ s2) ?st1"
    by (rule scan_word [OF s w])
  also have "\<dots> = scan cl bl (?idx + 1) (sp @ s2) ?st2"
    using step_word_end [of ?st1 c cl bl ?idx] c by simp
  also have "\<dots> = scan cl bl (?idx + 1 + int (length sp)) s2 ?st2"
    by (rule scan_gap) (simp_all add: sp)
  also have "?idx + 1 + int (length sp) = int (length (pre @ w @ c # sp))"
    by simp
  finally have "scan cl bl (int (length pre)) (w @ (c # sp) @ s2) st
      = scan cl bl (int (length (pre @ w @ c # sp))) s2 ?st2" .
  with names show ?thesis by (intro exI [of _ ?st2]) simp
qed


lemma scan_plain_names:
  "classList cl = pre @ s \<Longrightarrow> list_all plain s \<Longrightarrow> searchingForStart st
   \<Longrightarrow> \<exists>st'. scan cl bl (int (length pre)) s st = Inr st'
         \<and> map className (classInfo (finishScan cl bl st'))
           = map className (classInfo st)
             @ filter (\<lambda>p. p \<notin> set bl) (filter (\<lambda>p. p \<noteq> []) (wordParts True (split_ws s)))"
proof (induction s arbitrary: pre st rule: split_ws.induct)
  case (1 s)
  let ?w = "takeWhile (\<lambda>c. \<not> isWhiteSpace c) s"
  let ?r = "dropWhile (\<lambda>c. \<not> isWhiteSpace c) s"
  have s_eq: "?w @ ?r = s" by simp
  have w_plain: "list_all (\<lambda>c. plain c \<and> \<not> isWhiteSpace c) ?w"
    using "1.prems"(2) by (auto simp: list_all_iff dest: set_takeWhileD)
  show ?case
  proof (cases "?r = []")
    case True
    have sw: "?w = s" using s_eq unfolding True by simp
    have parts: "wordParts True (split_ws s) = [s]"
      by (simp add: wordParts_split_ws [of s] True sw)
    have "list_all (\<lambda>c. plain c \<and> \<not> isWhiteSpace c) s"
      using w_plain unfolding sw .
    from scan_last_word [OF "1.prems"(1) this "1.prems"(3), of bl] show ?thesis
      unfolding parts .
  next
    case False
    let ?sp = "takeWhile isWhiteSpace ?r"
    let ?s2 = "dropWhile isWhiteSpace ?r"
    have r_eq: "?sp @ ?s2 = ?r" by simp
    from False obtain c r' where cr: "?r = c # r'" by (cases ?r) auto
    have c_ws: "isWhiteSpace c" using hd_dropWhile [OF False] unfolding cr by simp
    have r_plain: "list_all plain ?r"
      using "1.prems"(2) by (auto simp: list_all_iff dest: set_dropWhileD)
    have sp_sep: "list_all (\<lambda>c. c \<in> set SEPARATOR_CHARS) ?sp"
      using r_plain separator_iff by (auto simp: list_all_iff dest!: set_takeWhileD)
    have s2_plain: "list_all plain ?s2"
      using r_plain by (auto simp: list_all_iff dest: set_dropWhileD)
    have parts: "wordParts True (split_ws s) = ?w # wordParts True (split_ws ?s2)"
      by (subst wordParts_split_ws) (simp only: False if_False)
    have sp_c: "?sp = c # takeWhile isWhiteSpace r'"
      unfolding cr using c_ws by simp
    have s2_c: "?s2 = dropWhile isWhiteSpace r'"
      unfolding cr using c_ws by simp
    have c_sep: "c \<in> set SEPARATOR_CHARS" and sp'_sep:
      "list_all (\<lambda>c. c \<in> set SEPARATOR_CHARS) (takeWhile isWhiteSpace r')"
      using sp_sep unfolding sp_c by simp_all
    have s_split: "?w @ (c # takeWhile isWhiteSpace r') @ ?s2 = s"
    proof -
      have "?w @ (c # takeWhile isWhiteSpace r') @ ?s2 = ?w @ ?sp @ ?s2"
        by (simp only: sp_c)
      also have "\<dots> = ?w @ ?r" by (simp only: r_eq)
      also have "\<dots> = s" by (rule s_eq)
      finally show ?thesis .
    qed
    show ?thesis
    proof (cases "?w = []")
      case w: True
      have s_gap: "?sp @ ?s2 = s" using s_split unfolding w sp_c by simp
      have whole: "classList cl = (pre @ ?sp) @ ?s2"
        using "1.prems"(1) s_gap by (metis append.assoc)
      from "1.IH" [OF False whole s2_plain "1.prems"(3)]
      obtain st' where st': "scan cl bl (int (length (pre @ ?sp))) ?s2 st = Inr st'"
        "map className (classInfo (finishScan cl bl st'))
           = map className (classInfo st)
             @ filter (\<lambda>p. p \<notin> set bl) (filter (\<lambda>p. p \<noteq> []) (wordParts True (split_ws ?s2)))"
        by blast
      have "scan cl bl (int (length pre)) (?sp @ ?s2) st
          = scan cl bl (int (length pre) + int (length ?sp)) ?s2 st"
        by (rule scan_gap [OF "1.prems"(3) sp_sep])
      then have "scan cl bl (int (length pre)) s st = scan cl bl (int (length (pre @ ?sp))) ?s2 st"
        unfolding s_gap by simp
      with st'(1) have "scan cl bl (int (length pre)) s st = Inr st'" by simp
      moreover have "filter (\<lambda>p. p \<noteq> []) (wordParts True (split_ws s))
          = filter (\<lambda>p. p \<noteq> []) (wordParts True (split_ws ?s2))"
        unfolding parts w by simp
      ultimately show ?thesis using st'(2) by simp
    next
      case w: False
      have whole: "classList cl = pre @ ?w @ (c # takeWhile isWhiteSpace r') @ ?s2"
        using "1.prems"(1) unfolding s_split .
      from scan_word_and_gap [OF whole w w_plain c_sep sp'_sep "1.prems"(3), of bl]
      obtain st2 where st2:
        "scan cl bl (int (length pre)) (?w @ (c # takeWhile isWhiteSpace r') @ ?s2) st
           = scan cl bl (int (length (pre @ ?w @ c # takeWhile isWhiteSpace r'))) ?s2 st2"
        "searchingForStart st2"
        "map className (classInfo st2)
           = map className (classInfo st) @ filter (\<lambda>p. p \<notin> set bl) [?w]"
        by blast
      have whole2: "classList cl = (pre @ ?w @ c # takeWhile isWhiteSpace r') @ ?s2"
        using whole by simp
      from "1.IH" [OF False whole2 s2_plain st2(2)]
      obtain st' where st':
        "scan cl bl (int (length (pre @ ?w @ c # takeWhile isWhiteSpace r'))) ?s2 st2 = Inr st'"
        "map className (classInfo (finishScan cl bl st'))
           = map className (classInfo st2)
             @ filter (\<lambda>p. p \<notin> set bl) (filter (\<lambda>p. p \<noteq> []) (wordParts True (split_ws ?s2)))"
        by blast
      from st2(1) st'(1) have "scan cl bl (int (length pre)) s st = Inr st'"
        unfolding s_split by simp
      moreover have "filter (\<lambda>p. p \<noteq> []) (wordParts True (split_ws s))
          = ?w # filter (\<lambda>p. p \<noteq> []) (wordParts True (split_ws ?s2))"
        unfolding parts using w by simp
      ultimately show ?thesis using st'(2) st2(3) by simp
    qed
  qed
qed
section \<open>Two class lists with a variant group\<close>

text \<open>
  C4: on the class list \<open>hover:(bg-red-500 focus:text-white)\<close>, whatever range the class
  list has, and with an empty blocklist, \<open>getClassNamesAndVariantsInClassList\<close> returns
  normally with exactly two tokens, in this order: \<open>bg-red-500\<close> with the variants
  \<open>[hover]\<close>, then \<open>text-white\<close> with the variants \<open>[hover, focus]\<close>.
\<close>

theorem variant_group_two_tokens:
  "namesAndVariants
     (getClassNamesAndVariantsInClassList
        \<lparr>classList = js ''hover:(bg-red-500 focus:text-white)'', range_cl = rng, important = imp\<rparr>
        [])
   = Inr [(js ''bg-red-500'', Some [js ''hover'']),
          (js ''text-white'', Some [js ''hover'', js ''focus''])]"
  by code_simp

text \<open>
  C6: on the unterminated group \<open>hover:(bg-red-500\<close>, with an empty blocklist,
  \<open>getClassNamesAndVariantsInClassList\<close> returns normally (no error), with exactly one
  token: the word that is still open at the end of the input, \<open>bg-red-500\<close>, with the
  variants \<open>[hover]\<close> that are active there.
\<close>

theorem unterminated_group_one_token:
  "namesAndVariants
     (getClassNamesAndVariantsInClassList
        \<lparr>classList = js ''hover:(bg-red-500'', range_cl = rng, important = imp\<rparr>
        [])
   = Inr [(js ''bg-red-500'', Some [js ''hover''])]"
  by code_simp

section \<open>Closing parentheses without a match\<close>

text \<open>
  C7: for every class list and blocklist \<open>getClassNamesAndVariantsInClassList\<close> returns
  normally. After any number \<open>n\<close> of iterations of its loop the scan is in a state
  without error where the counts on \<open>globalStackLengths\<close> add up to the length of
  \<open>globalStack\<close>, so that no count that is popped exceeds that length and the length
  never becomes negative. A closing parenthesis met while \<open>globalStackLengths\<close> is
  empty leaves both stacks as they are.
\<close>

theorem unmatched_close_is_safe:
  "(\<exists>toks. getClassNamesAndVariantsInClassList cl bl = Inr toks)
   \<and> (\<forall>n. \<exists>st. scan cl bl 0 (take n (classList cl)) init_state = Inr st
          \<and> sum_list (globalStackLengths st) = length (globalStack st))
   \<and> (\<forall>idx (st :: scan_state). globalStackLengths st = [] \<longrightarrow>
         (\<exists>st'. step cl bl idx rparen st = Inr st'
            \<and> globalStack st' = globalStack st \<and> globalStackLengths st' = []))"
proof (intro conjI allI impI)
  from scan_total obtain st where "scan cl bl 0 (classList cl) init_state = Inr st" by blast
  then show "\<exists>toks. getClassNamesAndVariantsInClassList cl bl = Inr toks"
    by (simp add: getClassNamesAndVariantsInClassList_def)
next
  fix n
  from scan_total [of cl bl "take n (classList cl)"]
  show "\<exists>st. scan cl bl 0 (take n (classList cl)) init_state = Inr st
          \<and> sum_list (globalStackLengths st) = length (globalStack st)"
    by (simp add: balanced_def)
next
  fix idx and st :: scan_state
  assume "globalStackLengths st = []"
  then show "\<exists>st'. step cl bl idx rparen st = Inr st'
            \<and> globalStack st' = globalStack st \<and> globalStackLengths st' = []"
    by (simp add: step_def closeGroup_def rparen_def colon_def lparen_def SEPARATOR_CHARS_def)
qed

text \<open>
  The class list \<open>a) b)\<close>: both closing parentheses are met with empty stacks, and the
  two words come out without variants.
\<close>

theorem unmatched_close_is_safe_witness:
  "globalStackLengths init_state = []
   \<and> map_sum id (\<lambda>s. (globalStack s, globalStackLengths s))
        (step (spanAt57 (js ''a) b)'')) [] 1 rparen init_state) = Inr ([], [])
   \<and> namesAndVariants (getClassNamesAndVariantsInClassList (spanAt57 (js ''a) b)'')) [])
       = Inr [(js ''a'', Some []), (js ''b'', Some [])]"
proof -
  have e: "globalStackLengths init_state = []" by (simp add: init_state_def)
  from unmatched_close_is_safe [of "spanAt57 (js ''a) b)'')" "[]"] e
  obtain st' where "step (spanAt57 (js ''a) b)'')) [] 1 rparen init_state = Inr st'"
     "globalStack st' = globalStack init_state" "globalStackLengths st' = []"
    by blast
  moreover have "globalStack init_state = []" by (simp add: init_state_def)
  moreover have "namesAndVariants (getClassNamesAndVariantsInClassList (spanAt57 (js ''a) b)'')) [])
      = Inr [(js ''a'', Some []), (js ''b'', Some [])]"
    by code_simp
  ultimately show ?thesis using e by simp
qed

section \<open>The blocklist\<close>

lemma allowed_push:
  "allowed bl (classInfo st) \<Longrightarrow> allowed bl (classInfo (pushClassInfo cl bl idx st))"
  by (simp add: pushClassInfo_def Let_def allowed_def)

lemma step_classInfo_cases:
  assumes "step cl bl idx c st = Inr st'"
  shows "classInfo st' = classInfo st \<or> classInfo st' = classInfo (pushClassInfo cl bl idx st)"
  using assms
  by (auto simp: step_def split: if_splits dest: closeGroup_fields(1))

lemma step_allowed:
  "allowed bl (classInfo st) \<Longrightarrow> step cl bl idx c st = Inr st' \<Longrightarrow> allowed bl (classInfo st')"
  using step_classInfo_cases [of cl bl idx c st st'] allowed_push [of bl st cl idx] by auto

lemma scan_allowed:
  "allowed bl (classInfo st) \<Longrightarrow> scan cl bl idx cs st = Inr st' \<Longrightarrow> allowed bl (classInfo st')"
proof (induction cs arbitrary: idx st)
  case Nil
  then show ?case by simp
next
  case (Cons c cs)
  then show ?case
    by (auto split: sum.splits dest: step_allowed)
qed

lemma flat_loop_allowed:
  "allowed bl names \<Longrightarrow> allowed bl (flat_loop cl bl ps i index names)"
  by (induction ps arbitrary: i index names) (simp_all add: allowed_def)

text \<open>
  C9: for every class list and every blocklist, no token that \<open>getClassNamesInClassList\<close>
  returns has a name of the blocklist, and \<open>getClassNamesAndVariantsInClassList\<close> returns
  normally with no such token either.
\<close>

theorem blocklisted_names_never_appear:
  "(\<forall>t \<in> set (getClassNamesInClassList cl bl). className t \<notin> set bl)
   \<and> (\<exists>toks. getClassNamesAndVariantsInClassList cl bl = Inr toks
        \<and> (\<forall>t \<in> set toks. className t \<notin> set bl))"
proof
  have "allowed bl (getClassNamesInClassList cl bl)"
    unfolding getClassNamesInClassList_def by (rule flat_loop_allowed) (simp add: allowed_def)
  then show "\<forall>t \<in> set (getClassNamesInClassList cl bl). className t \<notin> set bl"
    by (simp add: allowed_def list_all_iff)
next
  from scan_total obtain st where st: "scan cl bl 0 (classList cl) init_state = Inr st" by blast
  have "allowed bl (classInfo init_state)" by (simp add: allowed_def init_state_def)
  from scan_allowed [OF this st] have "allowed bl (classInfo st)" .
  then have "allowed bl (classInfo (if \<not> searchingForStart st
                  then pushClassInfo cl bl (int (length (classList cl))) st else st))"
    by (simp add: allowed_push)
  with st show "\<exists>toks. getClassNamesAndVariantsInClassList cl bl = Inr toks
        \<and> (\<forall>t \<in> set toks. className t \<notin> set bl)"
    by (simp add: getClassNamesAndVariantsInClassList_def allowed_def list_all_iff)
qed

text \<open>
  The blocklisted name \<open>b\<close> at the start, in the middle and at the end of a class list,
  and as its only entry.
\<close>

theorem blocklisted_names_never_appear_witness:
  "map className (getClassNamesInClassList (spanAt57 (js ''b a b c b'')) [js ''b''])
     = [js ''a'', js ''c'']
   \<and> js ''b'' \<notin> className ` set (getClassNamesInClassList (spanAt57 (js ''b a b c b'')) [js ''b''])
   \<and> namesAndVariants (getClassNamesAndVariantsInClassList (spanAt57 (js ''b a b c b'')) [js ''b''])
     = Inr [(js ''a'', Some []), (js ''c'', Some [])]
   \<and> getClassNamesInClassList (spanAt57 (js ''b'')) [js ''b''] = []
   \<and> getClassNamesAndVariantsInClassList (spanAt57 (js ''b'')) [js ''b''] = Inr []"
proof -
  have "js ''b'' \<notin> className ` set (getClassNamesInClassList (spanAt57 (js ''b a b c b'')) [js ''b''])"
    using blocklisted_names_never_appear [of "spanAt57 (js ''b a b c b'')" "[js ''b'']"] by auto
  moreover have "map className (getClassNamesInClassList (spanAt57 (js ''b a b c b'')) [js ''b''])
     = [js ''a'', js ''c'']"
    by code_simp
  moreover have "namesAndVariants
      (getClassNamesAndVariantsInClassList (spanAt57 (js ''b a b c b'')) [js ''b''])
     = Inr [(js ''a'', Some []), (js ''c'', Some [])]"
    by code_simp
  moreover have "getClassNamesInClassList (spanAt57 (js ''b'')) [js ''b''] = []"
    by code_simp
  moreover have "getClassNamesAndVariantsInClassList (spanAt57 (js ''b'')) [js ''b''] = Inr []"
    by code_simp
  ultimately show ?thesis by simp
qed

section \<open>Offsets outside the text\<close>




section \<open>Class lists without a word\<close>

text \<open>
  Let the blocklist not contain the empty string. On the empty class list
  \<open>getClassNamesInClassList\<close> returns exactly one token, with the empty name and the
  range from (0, 0) to (0, 0). On a class list that is not empty and has only whitespace
  it returns exactly two tokens with the empty name: one before the run of whitespace,
  at (0, 0), and one after it, at the position of the end of the text, both of width zero.
  \<open>getClassNamesAndVariantsInClassList\<close> returns no token on the empty class list, and
  none on a class list made of characters of \<open>SEPARATOR_CHARS\<close>.
\<close>

lemma flat_tokenizer_emits_empty_names:
  assumes "[] \<notin> set bl"
  shows "map nameAndRange (getClassNamesInClassList \<lparr>classList = [], range_cl = rng, important = imp\<rparr> bl)
       = [([], \<lparr>start = \<lparr>line = 0, character = 0\<rparr>, endp = \<lparr>line = 0, character = 0\<rparr>\<rparr>)]
     \<and> getClassNamesAndVariantsInClassList \<lparr>classList = [], range_cl = rng, important = imp\<rparr> bl = Inr []
     \<and> (s \<noteq> [] \<and> list_all isWhiteSpace s \<longrightarrow>
          map nameAndRange (getClassNamesInClassList \<lparr>classList = s, range_cl = rng, important = imp\<rparr> bl)
          = [([], \<lparr>start = \<lparr>line = 0, character = 0\<rparr>, endp = \<lparr>line = 0, character = 0\<rparr>\<rparr>),
             ([], \<lparr>start = indexToPosition s (int (length s)),
                   endp = indexToPosition s (int (length s))\<rparr>)])
     \<and> (list_all (\<lambda>c. c \<in> set SEPARATOR_CHARS) s \<longrightarrow>
          getClassNamesAndVariantsInClassList \<lparr>classList = s, range_cl = rng, important = imp\<rparr> bl = Inr [])"
proof (intro conjI impI)
  show "map nameAndRange (getClassNamesInClassList \<lparr>classList = [], range_cl = rng, important = imp\<rparr> bl)
       = [([], \<lparr>start = \<lparr>line = 0, character = 0\<rparr>, endp = \<lparr>line = 0, character = 0\<rparr>\<rparr>)]"
    using assms
    by (simp add: getClassNamesInClassList_def split_ws_Nil nameAndRange_def indexToPosition_0)
next
  show "getClassNamesAndVariantsInClassList \<lparr>classList = [], range_cl = rng, important = imp\<rparr> bl = Inr []"
    by (simp add: getClassNamesAndVariantsInClassList_def init_state_def)
next
  assume "s \<noteq> [] \<and> list_all isWhiteSpace s"
  then have "split_ws s = [[], s, []]" by (simp add: split_ws_whitespace)
  then show "map nameAndRange (getClassNamesInClassList \<lparr>classList = s, range_cl = rng, important = imp\<rparr> bl)
          = [([], \<lparr>start = \<lparr>line = 0, character = 0\<rparr>, endp = \<lparr>line = 0, character = 0\<rparr>\<rparr>),
             ([], \<lparr>start = indexToPosition s (int (length s)),
                   endp = indexToPosition s (int (length s))\<rparr>)]"
    using assms
    by (simp add: getClassNamesInClassList_def nameAndRange_def indexToPosition_0)
next
  assume "list_all (\<lambda>c. c \<in> set SEPARATOR_CHARS) s"
  then have "scan \<lparr>classList = s, range_cl = rng, important = imp\<rparr> bl 0 s init_state = Inr init_state"
    by (intro scan_separators) (simp_all add: init_state_def)
  then show "getClassNamesAndVariantsInClassList \<lparr>classList = s, range_cl = rng, important = imp\<rparr> bl = Inr []"
    by (simp add: getClassNamesAndVariantsInClassList_def) (simp add: init_state_def)
qed

text \<open>
  C10: the code breaks the claim on the class list that holds the one character U+2003
  (EM SPACE), with an empty blocklist. U+2003 is whitespace, and
  \<open>getClassNamesInClassList\<close> returns the two tokens with the empty name, as the claim
  says. The claim says that the tokenizer with variants returns an empty result on such a
  class list; \<open>getClassNamesAndVariantsInClassList\<close> returns one token, whose name is
  U+2003, because \<open>SEPARATOR_CHARS\<close> lists U+2000 and U+200A and none of U+2001 to
  U+2009.
\<close>

theorem em_space_only_class_list:
  "isWhiteSpace 0x2003 \<and> 0x2003 \<notin> set SEPARATOR_CHARS
   \<and> list_all isWhiteSpace [0x2001, 0x2002, 0x2003, 0x2004, 0x2005, 0x2006, 0x2007, 0x2008, 0x2009]
   \<and> list_all (\<lambda>c. c \<notin> set SEPARATOR_CHARS)
        [0x2001, 0x2002, 0x2003, 0x2004, 0x2005, 0x2006, 0x2007, 0x2008, 0x2009]
   \<and> map nameAndRange (getClassNamesInClassList (spanAt57 [0x2003]) [])
       = [([], \<lparr>start = \<lparr>line = 0, character = 0\<rparr>, endp = \<lparr>line = 0, character = 0\<rparr>\<rparr>),
          ([], \<lparr>start = \<lparr>line = 0, character = 1\<rparr>, endp = \<lparr>line = 0, character = 1\<rparr>\<rparr>)]
   \<and> map_sum id (map nameAndRange) (getClassNamesAndVariantsInClassList (spanAt57 [0x2003]) [])
       = Inr [([0x2003], \<lparr>start = \<lparr>line = 0, character = 0\<rparr>, endp = \<lparr>line = 0, character = 1\<rparr>\<rparr>)]"
  by code_simp

section \<open>The range of a token in the document\<close>

text \<open>
  What lines 56 to 65 and 127 to 136 compute for a token on one line of its class list,
  as every token of \<open>getClassNamesInClassList\<close> is: the lines of its range are the line of
  the start of the class list plus its lines inside the class list, and the column of the
  start of the class list is added to the character of a position on line 0, and not to
  the character of a position on a later line. For any token of either tokenizer that
  holds of the end of the token.
\<close>

lemma tokens_on_one_line_follow_rule:
  "(\<forall>t \<in> set (getClassNamesInClassList cl bl).
      (let r = relativeRange t; d = range_cn t; s = start (range_cl cl)
       in line (start r) = line (endp r)
          \<and> line (start d) = line s + line (start r)
          \<and> line (endp d) = line s + line (endp r)
          \<and> character (start d) = (if line (start r) = 0 then character s else 0) + character (start r)
          \<and> character (endp d) = (if line (endp r) = 0 then character s else 0) + character (endp r)))
   \<and> (\<exists>toks. getClassNamesAndVariantsInClassList cl bl = Inr toks
        \<and> (\<forall>t \<in> set toks.
             (let r = relativeRange t; d = range_cn t; s = start (range_cl cl)
              in line (start d) = line s + line (start r)
                 \<and> line (endp d) = line s + line (endp r)
                 \<and> character (endp d)
                     = (if line (endp r) = 0 then character s else 0) + character (endp r)
                 \<and> (line (start r) = line (endp r) \<longrightarrow>
                      character (start d)
                        = (if line (start r) = 0 then character s else 0) + character (start r)))))"
proof
  show "\<forall>t \<in> set (getClassNamesInClassList cl bl).
      (let r = relativeRange t; d = range_cn t; s = start (range_cl cl)
       in line (start r) = line (endp r)
          \<and> line (start d) = line s + line (start r)
          \<and> line (endp d) = line s + line (endp r)
          \<and> character (start d) = (if line (start r) = 0 then character s else 0) + character (start r)
          \<and> character (endp d) = (if line (endp r) = 0 then character s else 0) + character (endp r))"
    using flat_document_range [of cl bl] flat_same_line [of cl bl]
    by (simp add: list_all_iff Let_def documentRange_def)
next
  from variant_document_range [of cl bl]
  show "\<exists>toks. getClassNamesAndVariantsInClassList cl bl = Inr toks
        \<and> (\<forall>t \<in> set toks.
             (let r = relativeRange t; d = range_cn t; s = start (range_cl cl)
              in line (start d) = line s + line (start r)
                 \<and> line (endp d) = line s + line (endp r)
                 \<and> character (endp d)
                     = (if line (endp r) = 0 then character s else 0) + character (endp r)
                 \<and> (line (start r) = line (endp r) \<longrightarrow>
                      character (start d)
                        = (if line (start r) = 0 then character s else 0) + character (start r))))"
    by (auto simp: list_all_iff Let_def documentRange_def)
qed

text \<open>
  C1: the code breaks the rule of the claim on the class list \<open>a:\<close>, a newline, \<open>b\<close>,
  at line 5, column 7, with \<open>getClassNamesAndVariantsInClassList\<close> and an empty blocklist.
  The range of the token \<open>b\<close> inside the class list starts at (0, 1), on line 0, and ends
  at (1, 1), on a later line. By the rule its start in the document is (5, 8), shifted
  by the column 7 of the class list. The code tests the line of the end for the start
  too (lines 59 and 130) and returns the start (5, 1), which lies before the start (5, 7)
  of the class list itself.
\<close>

theorem start_on_line_0_not_shifted:
  "map_sum id (map (\<lambda>t. (className t, relativeRange t, range_cn t)))
     (getClassNamesAndVariantsInClassList (spanAt57 [0x61, 0x3A, 0x0A, 0x62]) [])
   = Inr [([0x62],
           \<lparr>start = \<lparr>line = 0, character = 1\<rparr>, endp = \<lparr>line = 1, character = 1\<rparr>\<rparr>,
           \<lparr>start = \<lparr>line = 5, character = 1\<rparr>, endp = \<lparr>line = 6, character = 1\<rparr>\<rparr>)]
   \<and> start (range_cl (spanAt57 [0x61, 0x3A, 0x0A, 0x62])) = \<lparr>line = 5, character = 7\<rparr>"
  by code_simp

section \<open>The text at the range of a token\<close>




section \<open>The two tokenizers on class lists without variants\<close>

text \<open>
  C3, as amended: every character of \<open>SEPARATOR_CHARS\<close> is whitespace, and no name of a
  token of \<open>getClassNamesInClassList\<close> has a whitespace character. For every blocklist
  and every class list that has no colon and no parenthesis and whose whitespace
  characters are all in \<open>SEPARATOR_CHARS\<close>, \<open>getClassNamesAndVariantsInClassList\<close>
  returns the names that \<open>getClassNamesInClassList\<close> returns, in the same order,
  without the empty names: the two sets of names are equal up to the empty name.
\<close>

theorem same_names_up_to_empty:
  assumes "\<forall>c \<in> set (classList cl). c \<noteq> colon \<and> c \<noteq> lparen \<and> c \<noteq> rparen
      \<and> (isWhiteSpace c \<longrightarrow> c \<in> set SEPARATOR_CHARS)"
  shows "list_all isWhiteSpace SEPARATOR_CHARS
      \<and> list_all (\<lambda>t. list_all (\<lambda>c. \<not> isWhiteSpace c) (className t))
            (getClassNamesInClassList cl bl)
      \<and> (\<exists>toks. getClassNamesAndVariantsInClassList cl bl = Inr toks
      \<and> map className toks = filter (\<lambda>n. n \<noteq> []) (map className (getClassNamesInClassList cl bl))
      \<and> set (map className toks) = set (map className (getClassNamesInClassList cl bl)) - {[]})"
proof -
  have flat_words: "list_all (\<lambda>t. list_all (\<lambda>c. \<not> isWhiteSpace c) (className t))
      (getClassNamesInClassList cl bl)"
    by (rule flat_tokens_all) simp
  from assms have "list_all plain (classList cl)"
    by (simp add: list_all_iff plain_def)
  from scan_plain_names [of cl "[]" "classList cl", OF _ this, of init_state bl]
  obtain st' where st': "scan cl bl 0 (classList cl) init_state = Inr st'"
    "map className (classInfo (finishScan cl bl st'))
       = filter (\<lambda>p. p \<notin> set bl)
           (filter (\<lambda>p. p \<noteq> []) (wordParts True (split_ws (classList cl))))"
    by (auto simp: init_state_def)
  have res: "getClassNamesAndVariantsInClassList cl bl = Inr (classInfo (finishScan cl bl st'))"
    using st'(1) by (simp add: getClassNamesAndVariantsInClassList_def finishScan_def)
  have names: "map className (classInfo (finishScan cl bl st'))
      = filter (\<lambda>n. n \<noteq> []) (map className (getClassNamesInClassList cl bl))"
    unfolding st'(2) flat_names by (simp add: conj_commute)
  have "set (map className (classInfo (finishScan cl bl st')))
      = set (filter (\<lambda>n. n \<noteq> []) (map className (getClassNamesInClassList cl bl)))"
    by (simp only: names)
  also have "\<dots> = set (map className (getClassNamesInClassList cl bl)) - {[]}"
    by auto
  finally have "set (map className (classInfo (finishScan cl bl st')))
      = set (map className (getClassNamesInClassList cl bl)) - {[]}" .
  with res names have "\<exists>toks. getClassNamesAndVariantsInClassList cl bl = Inr toks
      \<and> map className toks = filter (\<lambda>n. n \<noteq> []) (map className (getClassNamesInClassList cl bl))
      \<and> set (map className toks) = set (map className (getClassNamesInClassList cl bl)) - {[]}"
    by blast
  with separators_are_whitespace flat_words show ?thesis by blast
qed

text \<open>
  The class list \<open>p-4\<close>, two spaces, \<open>block\<close>, between one space at each end:
  the flat tokenizer gives an empty name at each end, the tokenizer with variants none.
\<close>

theorem same_names_up_to_empty_witness:
  "list_all (\<lambda>c. c \<noteq> colon \<and> c \<noteq> lparen \<and> c \<noteq> rparen
      \<and> (isWhiteSpace c \<longrightarrow> c \<in> set SEPARATOR_CHARS)) (js '' p-4  block '')
   \<and> map className (getClassNamesInClassList (spanAt57 (js '' p-4  block '')) [])
       = [[], js ''p-4'', js ''block'', []]
   \<and> map_sum id (map className)
        (getClassNamesAndVariantsInClassList (spanAt57 (js '' p-4  block '')) [])
       = Inr [js ''p-4'', js ''block'']"
proof -
  have c: "classList (spanAt57 (js '' p-4  block '')) = js '' p-4  block ''"
    by (simp add: spanAt57_def Let_def)
  have h: "list_all (\<lambda>c. c \<noteq> colon \<and> c \<noteq> lparen \<and> c \<noteq> rparen
      \<and> (isWhiteSpace c \<longrightarrow> c \<in> set SEPARATOR_CHARS)) (js '' p-4  block '')"
    by code_simp
  then have h': "\<forall>c \<in> set (classList (spanAt57 (js '' p-4  block ''))).
      c \<noteq> colon \<and> c \<noteq> lparen \<and> c \<noteq> rparen \<and> (isWhiteSpace c \<longrightarrow> c \<in> set SEPARATOR_CHARS)"
    unfolding c by (simp only: list_all_iff)
  have flat: "map className (getClassNamesInClassList (spanAt57 (js '' p-4  block '')) [])
       = [[], js ''p-4'', js ''block'', []]"
    by code_simp
  from same_names_up_to_empty [OF h', of "[]"]
  obtain toks where "getClassNamesAndVariantsInClassList (spanAt57 (js '' p-4  block '')) [] = Inr toks"
    and "map className toks = filter (\<lambda>n. n \<noteq> [])
           (map className (getClassNamesInClassList (spanAt57 (js '' p-4  block '')) []))"
    by blast
  then have "map_sum id (map className)
        (getClassNamesAndVariantsInClassList (spanAt57 (js '' p-4  block '')) [])
       = Inr [js ''p-4'', js ''block'']"
    unfolding flat by (simp add: js_def)
  with h flat show ?thesis by blast
qed

text \<open>
  The claim as stated fails on the empty class list, and on the class list \<open>block\<close>
  after one space: the flat tokenizer returns a token with the empty name, the tokenizer
  with variants does not, and the two sets of names differ.
\<close>

theorem empty_names_only_from_flat_tokenizer:
  "map className (getClassNamesInClassList (spanAt57 []) []) = [[]]
   \<and> map_sum id (map className) (getClassNamesAndVariantsInClassList (spanAt57 []) []) = Inr []
   \<and> map className (getClassNamesInClassList (spanAt57 (js '' block'')) []) = [[], js ''block'']
   \<and> map_sum id (map className)
        (getClassNamesAndVariantsInClassList (spanAt57 (js '' block'')) []) = Inr [js ''block'']"
  by code_simp

text \<open>
  The characters U+2001 to U+2009 are whitespace of the class \<open>\s\<close> and are not in
  \<open>SEPARATOR_CHARS\<close>, which lists U+2000 and U+200A only. On \<open>a\<close>, U+2003, \<open>b\<close> the
  flat tokenizer returns \<open>a\<close> and \<open>b\<close>, the tokenizer with variants one token.
\<close>

lemma em_space_is_no_separator:
  "isWhiteSpace 0x2003 \<and> 0x2003 \<notin> set SEPARATOR_CHARS
   \<and> map className (getClassNamesInClassList (spanAt57 [0x61, 0x2003, 0x62]) [])
       = [[0x61], [0x62]]
   \<and> map_sum id (map className)
        (getClassNamesAndVariantsInClassList (spanAt57 [0x61, 0x2003, 0x62]) [])
       = Inr [[0x61, 0x2003, 0x62]]"
  by code_simp

section \<open>A helper function with a modifier and a fallback\<close>

text \<open>
  C5, as amended: on the style sheet \<open>.a { color: theme('colors.red.500' / 50, red); }\<close>,
  whatever \<open>resolveRange\<close> does and whatever the enclosing range is,
  \<open>findHelperFunctionsInRange\<close> returns exactly one helper function. Its helper is
  \<open>theme\<close> and its path is \<open>colors.red.500\<close>: the fallback after the first comma outside
  quotes, the quotes and the modifier \<open>/ 50\<close> are not in the path. Its path range is
  the range of \<open>colors.red.500\<close>, from offset 19 to 33. Its full range, from offset 18 to
  44, is the range of the whole argument \<open>'colors.red.500' / 50, red\<close>: it includes the
  modifier and the fallback as well.
\<close>

theorem theme_call_with_modifier_and_fallback:
  "findHelperFunctionsInRange rr themeRule rng
   = [\<lparr>helper = Theme, path = js ''colors.red.500'',
       ranges = \<lparr>full = rr \<lparr>start = \<lparr>line = 0, character = 18\<rparr>,
                             endp = \<lparr>line = 0, character = 44\<rparr>\<rparr> rng,
                 path_range = rr \<lparr>start = \<lparr>line = 0, character = 19\<rparr>,
                                   endp = \<lparr>line = 0, character = 33\<rparr>\<rparr> rng\<rparr>\<rparr>]
   \<and> textAt themeRule \<lparr>start = \<lparr>line = 0, character = 18\<rparr>, endp = \<lparr>line = 0, character = 44\<rparr>\<rparr>
       = [squote] @ js ''colors.red.500'' @ [squote] @ js '' / 50, red''
   \<and> textAt themeRule \<lparr>start = \<lparr>line = 0, character = 19\<rparr>, endp = \<lparr>line = 0, character = 33\<rparr>\<rparr>
       = js ''colors.red.500''"
  by code_simp

text \<open>
  The claim as stated fails on that style sheet: the fallback is not excluded entirely,
  since the text at the full range ends with \<open>, red\<close>.
\<close>

theorem full_range_includes_fallback:
  "map (\<lambda>h. (path h, textAt themeRule (full (ranges h))))
     (findHelperFunctionsInRange resolveUnchanged themeRule None)
   = [(js ''colors.red.500'', [squote] @ js ''colors.red.500'' @ [squote] @ js '' / 50, red'')]
   \<and> endsWith ([squote] @ js ''colors.red.500'' @ [squote] @ js '' / 50, red'') (js '', red'')"
  by code_simp

end
